theory Spec2Isabelle
  imports Main
begin

section \<open>Python values and string primitives\<close>

text \<open>
  Both scripts read records through \<^verbatim>\<open>.get(name, default)\<close>, combine candidates with
  \<^verbatim>\<open>or\<close> and convert with \<^verbatim>\<open>str(...)\<close>. A cell of a record is a Python scalar. The
  constructor \<open>PNaN\<close> is \<^verbatim>\<open>float('nan')\<close>, the value pandas puts in a missing CSV
  cell; other floats are not modelled. A string is a list of code points below 256.
\<close>

datatype pyval = PNone | PBool bool | PInt int | PStr string | PNaN

fun truthy :: "pyval \<Rightarrow> bool" where
  "truthy PNone = False"
| "truthy (PBool b) = b"
| "truthy (PInt i) = (i \<noteq> 0)"
| "truthy (PStr s) = (s \<noteq> [])"
| "truthy PNaN = True"

definition py_or :: "pyval \<Rightarrow> pyval \<Rightarrow> pyval" where
  "py_or a b = (if truthy a then a else b)"

definition digit_char :: "nat \<Rightarrow> char" where
  "digit_char n = ''0123456789'' ! n"

fun str_nat :: "nat \<Rightarrow> string" where
  "str_nat n = (if n < 10 then [digit_char n] else str_nat (n div 10) @ [digit_char (n mod 10)])"

declare str_nat.simps [simp del]

fun py_str :: "pyval \<Rightarrow> string" where
  "py_str PNone = ''None''"
| "py_str (PBool b) = (if b then ''True'' else ''False'')"
| "py_str (PInt i) = (if i < 0 then CHR ''-'' # str_nat (nat (- i)) else str_nat (nat i))"
| "py_str (PStr s) = s"
| "py_str PNaN = ''nan''"

definition py_get :: "(string \<rightharpoonup> pyval) \<Rightarrow> string \<Rightarrow> pyval \<Rightarrow> pyval" where
  "py_get d k dflt = (case d k of Some v \<Rightarrow> v | None \<Rightarrow> dflt)"

text \<open>
  \<^verbatim>\<open>str.isspace\<close> on one code point; \<^verbatim>\<open>str.strip()\<close> and the pattern class
  \<^verbatim>\<open>\s\<close> both use it.
\<close>

definition is_space :: "char \<Rightarrow> bool" where
  "is_space c = (let n = (of_char c :: nat) in
     (9 \<le> n \<and> n \<le> 13) \<or> (28 \<le> n \<and> n \<le> 32) \<or> n = 133 \<or> n = 160)"

definition py_strip :: "string \<Rightarrow> string" where
  "py_strip s = rev (dropWhile is_space (rev (dropWhile is_space s)))"

definition lower_char :: "char \<Rightarrow> char" where
  "lower_char c = (let n = (of_char c :: nat) in
     if (65 \<le> n \<and> n \<le> 90) \<or> (192 \<le> n \<and> n \<le> 222 \<and> n \<noteq> 215)
     then char_of (n + 32) else c)"

definition py_lower :: "string \<Rightarrow> string" where
  "py_lower s = map lower_char s"

text \<open>\<^verbatim>\<open>s.split(d)\<close> for a one-character separator: never an empty list.\<close>

fun py_split :: "char \<Rightarrow> string \<Rightarrow> string list" where
  "py_split d [] = [[]]"
| "py_split d (c # cs) =
     (if c = d then [] # py_split d cs
      else (case py_split d cs of [] \<Rightarrow> [[c]] | p # ps \<Rightarrow> (c # p) # ps))"

definition py_rstrip :: "char \<Rightarrow> string \<Rightarrow> string" where
  "py_rstrip d s = rev (dropWhile (\<lambda>c. c = d) (rev s))"

section \<open>Knowledge base\<close>

text \<open>
  An entry is the dict the scripts build and \<^verbatim>\<open>json.dump\<close> writes: field name to JSON
  value. The knowledge base maps a lowercase title to its entry.
\<close>

datatype jval = JNull | JBool bool | JInt int | JStr string | JList "jval list"

type_synonym entry = "string \<rightharpoonup> jval"
type_synonym kbase = "string \<rightharpoonup> entry"
type_synonym raw_record = "string \<rightharpoonup> pyval"

section \<open>The tabular pipeline: \<^verbatim>\<open>ingest_leetcode_data.process_data\<close>\<close>

record kaggle_state =
  kb :: kbase
  count :: nat

text \<open>
  One iteration of the loop over \<^verbatim>\<open>df.iterrows()\<close>, on a row whose column names are
  already lowercase (line 51). The early \<^verbatim>\<open>continue\<close> returns the state unchanged. No
  operation of the body raises on the modelled values, so the \<^verbatim>\<open>except\<close> branch has no
  counterpart.
\<close>

definition process_row :: "kaggle_state \<Rightarrow> raw_record \<Rightarrow> kaggle_state" where
  "process_row st row =
     (let title = py_strip (py_str (py_or (py_get row ''title'' (PStr []))
                                          (py_get row ''question title'' (PStr []))))
      in if title = [] then st
         else
           let problem_id = py_strip (py_str (py_or (py_get row ''id'' (PStr []))
                                  (py_get row ''frontend question id'' (PStr []))));
               tags0 = py_split CHR '','' (py_str (py_or (py_get row ''tags'' (PStr []))
                                  (py_get row ''topic tags'' (PStr []))));
               entry0 = [''id'' \<mapsto> JStr problem_id,
                         ''title'' \<mapsto> JStr title,
                         ''difficulty'' \<mapsto> JStr (py_str (py_get row ''difficulty'' (PStr ''Medium''))),
                         ''tags'' \<mapsto> JList (map JStr tags0),
                         ''description'' \<mapsto> JStr (py_str (py_or (py_get row ''description'' (PStr []))
                                  (py_get row ''question text'' (PStr [])))),
                         ''solution'' \<mapsto> JStr (py_str (py_or (py_get row ''solution'' (PStr []))
                                  (py_get row ''python solution'' (PStr []))))];
               entry = entry0(''tags'' \<mapsto>
                         JList (map JStr (map py_strip (filter (\<lambda>t. py_strip t \<noteq> []) tags0))))
           in st\<lparr>kb := (kb st)(py_lower title \<mapsto> entry), count := count st + 1\<rparr>)"

definition process_data :: "raw_record list \<Rightarrow> kbase" where
  "process_data rows = kb (foldl process_row \<lparr>kb = Map.empty, count = 0\<rparr> rows)"

section \<open>The signature extractor: \<^verbatim>\<open>ingest_hf_leetcode.extract_method_signature\<close>\<close>

text \<open>
  The pattern is embedded as backtracking matchers. A matcher maps the text at the
  current position to the list of its ways to match there, each a pair of the text it
  consumed and the text that remains, in the order in which the backtracking engine of
  \<^verbatim>\<open>re\<close> tries them: a greedy repetition offers its longest match first, a greedy
  option offers the optional part before the empty match.
\<close>

type_synonym matcher = "string \<Rightarrow> (string \<times> string) list"

definition re_class :: "(char \<Rightarrow> bool) \<Rightarrow> matcher" where
  "re_class P s = (case s of [] \<Rightarrow> [] | c # cs \<Rightarrow> if P c then [([c], cs)] else [])"

definition re_lit :: "string \<Rightarrow> matcher" where
  "re_lit w s = (if take (length w) s = w then [(w, drop (length w) s)] else [])"

fun re_star :: "(char \<Rightarrow> bool) \<Rightarrow> matcher" where
  "re_star P [] = [([], [])]"
| "re_star P (c # cs) =
     (if P c then map (\<lambda>(m, r). (c # m, r)) (re_star P cs) @ [([], c # cs)]
      else [([], c # cs)])"

definition re_seq :: "matcher \<Rightarrow> matcher \<Rightarrow> matcher" where
  "re_seq a b s = concat (map (\<lambda>(m1, r1). map (\<lambda>(m2, r2). (m1 @ m2, r2)) (b r1)) (a s))"

definition re_plus :: "(char \<Rightarrow> bool) \<Rightarrow> matcher" where
  "re_plus P = re_seq (re_class P) (re_star P)"

definition re_opt :: "matcher \<Rightarrow> matcher" where
  "re_opt a s = a s @ [([], s)]"

definition is_alpha_us :: "char \<Rightarrow> bool" where
  \<comment> \<open>\<^verbatim>\<open>[a-zA-Z_]\<close>\<close>
  "is_alpha_us c = (let n = (of_char c :: nat) in
     (97 \<le> n \<and> n \<le> 122) \<or> (65 \<le> n \<and> n \<le> 90) \<or> n = 95)"

definition is_alnum_us :: "char \<Rightarrow> bool" where
  \<comment> \<open>\<^verbatim>\<open>[a-zA-Z0-9_]\<close>\<close>
  "is_alnum_us c = (let n = (of_char c :: nat) in
     (97 \<le> n \<and> n \<le> 122) \<or> (65 \<le> n \<and> n \<le> 90) \<or> (48 \<le> n \<and> n \<le> 57) \<or> n = 95)"

text \<open>
  \<^verbatim>\<open>def\s+([a-zA-Z_][a-zA-Z0-9_]*)\s*\([^)]*\)(?:\s*->\s*[^:]+)?:\<close> in three parts:
  what precedes group 1, group 1, and what follows it.
\<close>

definition pat_head :: matcher where
  "pat_head = re_seq (re_lit ''def'') (re_plus is_space)"

definition pat_group1 :: matcher where
  "pat_group1 = re_seq (re_class is_alpha_us) (re_star is_alnum_us)"

definition pat_arrow :: matcher where
  "pat_arrow = re_seq (re_star is_space) (re_seq (re_lit ''->'') (re_seq (re_star is_space) (re_plus (\<lambda>c. c \<noteq> CHR '':''))))"

definition pat_tail :: matcher where
  "pat_tail = re_seq (re_star is_space) (re_seq (re_lit ''('') (re_seq (re_star (\<lambda>c. c \<noteq> CHR '')''))
                (re_seq (re_lit '')'') (re_seq (re_opt pat_arrow) (re_lit '':'')))))"

text \<open>The matches of the whole pattern at the start of the text: group 0, group 1, the rest.\<close>

definition method_pattern :: "string \<Rightarrow> (string \<times> string \<times> string) list" where
  "method_pattern s =
     concat (map (\<lambda>(m1, r1).
       concat (map (\<lambda>(g1, r2).
         map (\<lambda>(m3, r3). (m1 @ g1 @ m3, g1, r3)) (pat_tail r2)) (pat_group1 r1))) (pat_head s))"

text \<open>\<^verbatim>\<open>re.search\<close>: the first way to match at the leftmost position that has one.\<close>

fun re_search :: "string \<Rightarrow> (string \<times> string) option" where
  "re_search s =
     (case method_pattern s of
        (g0, g1, r) # _ \<Rightarrow> Some (g0, g1)
      | [] \<Rightarrow> (case s of [] \<Rightarrow> None | c # cs \<Rightarrow> re_search cs))"

declare re_search.simps [simp del]

record sig_info =
  method_name :: string
  full_signature :: string

definition extract_method_signature :: "string \<Rightarrow> sig_info option" where
  "extract_method_signature code =
     (if code = [] then None
      else (case re_search code of
              Some (g0, g1) \<Rightarrow> Some \<lparr>method_name = g1, full_signature = py_rstrip CHR '':'' g0\<rparr>
            | None \<Rightarrow> None))"

section \<open>The solutions pipeline: \<^verbatim>\<open>ingest_hf_leetcode.process_hf_dataset\<close>\<close>

record hf_state =
  solutions_kb :: kbase
  method_signature_count :: nat

text \<open>
  One iteration of the loop over \<^verbatim>\<open>train_data\<close>. The existing knowledge base is read
  only; it is taken to have the schema of the output, an object of objects, so that
  \<^verbatim>\<open>existing_kb[title_key].copy()\<close> is a dict and no operation of the body raises.
\<close>

definition process_item :: "kbase \<Rightarrow> hf_state \<Rightarrow> raw_record \<Rightarrow> hf_state" where
  "process_item existing_kb st item =
     (let title = py_strip (py_str (py_get item ''problem_title'' (PStr [])))
      in if title = [] then st
         else
           let title_key = py_lower title;
               entry = (case existing_kb title_key of
                          Some e \<Rightarrow> e
                        | None \<Rightarrow> [''id'' \<mapsto> JStr (py_str (py_get item ''number'' (PStr []))),
                                   ''title'' \<mapsto> JStr title,
                                   ''difficulty'' \<mapsto> JStr (py_str (py_get item ''difficulty'' (PStr ''Medium''))),
                                   ''tags'' \<mapsto> JList [],
                                   ''description'' \<mapsto> JStr (py_str (py_get item ''post_title'' (PStr [])))]);
               code = py_str (py_get item ''python_solutions'' (PStr []))
           in if code = [] then st\<lparr>solutions_kb := (solutions_kb st)(title_key \<mapsto> entry)\<rparr>
              else
                let entry1 = entry(''solution_code'' \<mapsto> JStr code)
                in (case extract_method_signature code of
                      Some sig_info \<Rightarrow>
                        st\<lparr>solutions_kb := (solutions_kb st)(title_key \<mapsto>
                              entry1(''method_name'' \<mapsto> JStr (method_name sig_info),
                                     ''method_signature'' \<mapsto> JStr (full_signature sig_info))),
                           method_signature_count := method_signature_count st + 1\<rparr>
                    | None \<Rightarrow> st\<lparr>solutions_kb := (solutions_kb st)(title_key \<mapsto> entry1)\<rparr>))"

definition process_hf_dataset :: "kbase \<Rightarrow> raw_record list \<Rightarrow> kbase" where
  "process_hf_dataset existing_kb train_data =
     solutions_kb (foldl (process_item existing_kb)
                     \<lparr>solutions_kb = Map.empty, method_signature_count = 0\<rparr> train_data)"

section \<open>Notions used by the properties\<close>

text \<open>
  What one record contributes, read off the loop body run on the empty state:
  \<open>row_stores row k e\<close> says that the tabular pipeline files the row under key \<open>k\<close> with
  entry \<open>e\<close>; \<open>item_stores\<close> is the same for the solutions pipeline and a given
  existing knowledge base. A skipped record stores nothing.
\<close>

definition row_stores :: "raw_record \<Rightarrow> string \<Rightarrow> entry \<Rightarrow> bool" where
  "row_stores row k e \<longleftrightarrow> kb (process_row \<lparr>kb = Map.empty, count = 0\<rparr> row) k = Some e"

definition item_stores :: "kbase \<Rightarrow> raw_record \<Rightarrow> string \<Rightarrow> entry \<Rightarrow> bool" where
  "item_stores existing_kb item k e \<longleftrightarrow>
     solutions_kb (process_item existing_kb
       \<lparr>solutions_kb = Map.empty, method_signature_count = 0\<rparr> item) k = Some e"

text \<open>A field that is absent, or is text that is empty once trimmed.\<close>

definition blank_field :: "pyval option \<Rightarrow> bool" where
  "blank_field v = (case v of None \<Rightarrow> True | Some (PStr s) \<Rightarrow> py_strip s = [] | Some _ \<Rightarrow> False)"

text \<open>The invariant of the data model: an entry found under \<open>k\<close> has a title whose lowercase form is \<open>k\<close>.\<close>

definition kb_inv :: "kbase \<Rightarrow> bool" where
  "kb_inv m \<longleftrightarrow> (\<forall>k e. m k = Some e \<longrightarrow> (\<exists>t. e ''title'' = Some (JStr t) \<and> py_lower t = k))"

text \<open>
  The spec's reading of a group of candidate fields: a candidate is text or absent, and
  the first one that is not empty is used, the empty text when there is none.
\<close>

definition text_field :: "pyval option \<Rightarrow> bool" where
  "text_field v = (case v of None \<Rightarrow> True | Some (PStr s) \<Rightarrow> True | Some _ \<Rightarrow> False)"

definition field_text :: "pyval option \<Rightarrow> string" where
  "field_text v = (case v of Some (PStr s) \<Rightarrow> s | _ \<Rightarrow> [])"

definition first_non_empty :: "string \<Rightarrow> string \<Rightarrow> string" where
  "first_non_empty a b = (if a \<noteq> [] then a else b)"

text \<open>The spec's tag rule: split on commas, trim each piece, drop the pieces left empty.\<close>

definition split_tags :: "string \<Rightarrow> string list" where
  "split_tags s = filter (\<lambda>t. t \<noteq> []) (map py_strip (py_split CHR '','' s))"

text \<open>
  The spec's shape of a declaration,
  \<^verbatim>\<open>def <identifier>(<parameters>) [-> <return-type>]:\<close>, as a predicate on a name and
  a text: the word \<^verbatim>\<open>def\<close>, whitespace, the identifier, optional whitespace, the
  parameters in parentheses (any text without a closing parenthesis), an optional return
  annotation (optional whitespace, an arrow, and a non-empty text without a colon), and
  the colon.
\<close>

definition is_identifier :: "string \<Rightarrow> bool" where
  "is_identifier n = (case n of [] \<Rightarrow> False | c # cs \<Rightarrow> is_alpha_us c \<and> list_all is_alnum_us cs)"

definition return_annotation :: "string \<Rightarrow> bool" where
  "return_annotation ret \<longleftrightarrow>
     ret = [] \<or> (\<exists>ws rt. ret = ws @ ''->'' @ rt \<and> list_all is_space ws \<and>
                            rt \<noteq> [] \<and> CHR '':'' \<notin> set rt)"

definition decl_shape :: "string \<Rightarrow> string \<Rightarrow> bool" where
  "decl_shape n d \<longleftrightarrow>
     (\<exists>ws1 ws2 ps ret.
        d = ''def'' @ ws1 @ n @ ws2 @ ''('' @ ps @ '')'' @ ret @ '':'' \<and>
        ws1 \<noteq> [] \<and> list_all is_space ws1 \<and> is_identifier n \<and> list_all is_space ws2 \<and>
        CHR '')'' \<notin> set ps \<and> return_annotation ret)"

text \<open>
  \<open>first_decl code n d\<close>: the declaration text \<open>d\<close> with name \<open>n\<close> occurs in \<open>code\<close>,
  and no text of that shape starts earlier in \<open>code\<close>.
\<close>

definition first_decl :: "string \<Rightarrow> string \<Rightarrow> string \<Rightarrow> bool" where
  "first_decl code n d \<longleftrightarrow>
     (\<exists>pre post. code = pre @ d @ post \<and> decl_shape n d \<and>
        (\<forall>pre' n' d' post'. code = pre' @ d' @ post' \<and> decl_shape n' d'
           \<longrightarrow> length pre \<le> length pre'))"

text \<open>\<open>has_infix w s\<close>: the word \<open>w\<close> occurs somewhere in the text \<open>s\<close>.\<close>

fun has_infix :: "string \<Rightarrow> string \<Rightarrow> bool" where
  "has_infix w [] = (w = [])"
| "has_infix w (c # cs) = (take (length w) (c # cs) = w \<or> has_infix w cs)"

section \<open>Each record overlays the knowledge base\<close>

lemma kb_process_row:
  "kb (process_row st row) = kb st ++ kb (process_row \<lparr>kb = Map.empty, count = 0\<rparr> row)"
  by (simp add: process_row_def Let_def)

lemma kb_process_item:
  "solutions_kb (process_item ex st item) =
     solutions_kb st ++ solutions_kb (process_item ex
       \<lparr>solutions_kb = Map.empty, method_signature_count = 0\<rparr> item)"
  by (simp add: process_item_def Let_def split: option.splits)

lemma kb_process_row_at:
  "kb (process_row st row) k =
     (case kb (process_row \<lparr>kb = Map.empty, count = 0\<rparr> row) k of
        None \<Rightarrow> kb st k | Some e \<Rightarrow> Some e)"
  by (subst kb_process_row) (simp add: map_add_def)

lemma kb_process_item_at:
  "solutions_kb (process_item ex st item) k =
     (case solutions_kb (process_item ex
             \<lparr>solutions_kb = Map.empty, method_signature_count = 0\<rparr> item) k of
        None \<Rightarrow> solutions_kb st k | Some e \<Rightarrow> Some e)"
  by (subst kb_process_item) (simp add: map_add_def)

lemma foldl_process_row_other:
  "\<forall>r \<in> set ys. \<forall>e. \<not> row_stores r k e \<Longrightarrow> kb (foldl process_row st ys) k = kb st k"
proof (induction ys arbitrary: st)
  case Nil
  show ?case by simp
next
  case (Cons y ys)
  have "kb (process_row st y) k = kb st k"
    using Cons.prems by (simp add: kb_process_row_at [of st] row_stores_def split: option.splits)
  with Cons show ?case by simp
qed

lemma foldl_process_item_other:
  "\<forall>r \<in> set ys. \<forall>e. \<not> item_stores ex r k e \<Longrightarrow>
     solutions_kb (foldl (process_item ex) st ys) k = solutions_kb st k"
proof (induction ys arbitrary: st)
  case Nil
  show ?case by simp
next
  case (Cons y ys)
  have "solutions_kb (process_item ex st y) k = solutions_kb st k"
    using Cons.prems
    by (simp add: kb_process_item_at [of ex st] item_stores_def split: option.splits)
  with Cons show ?case by simp
qed

lemma py_strip_Nil [simp]: "py_strip [] = []"
  by (simp add: py_strip_def)

lemma blank_title_row:
  assumes "blank_field (row ''title'')" and "blank_field (row ''question title'')"
  shows "py_strip (py_str (py_or (py_get row ''title'' (PStr []))
                                 (py_get row ''question title'' (PStr [])))) = []"
  using assms
  by (auto simp: blank_field_def py_get_def py_or_def split: option.splits pyval.splits)

lemma blank_title_item:
  assumes "blank_field (item ''problem_title'')"
  shows "py_strip (py_str (py_get item ''problem_title'' (PStr []))) = []"
  using assms
  by (auto simp: blank_field_def py_get_def split: option.splits pyval.splits)

lemma process_row_blank:
  "blank_field (row ''title'') \<Longrightarrow> blank_field (row ''question title'') \<Longrightarrow>
     process_row st row = st"
  by (simp add: process_row_def blank_title_row)

lemma process_item_blank:
  "blank_field (item ''problem_title'') \<Longrightarrow> process_item ex st item = st"
  by (simp add: process_item_def blank_title_item)

lemma process_row_inv: "kb_inv (kb st) \<Longrightarrow> kb_inv (kb (process_row st row))"
  by (auto simp: process_row_def Let_def kb_inv_def)

lemma process_item_inv:
  "kb_inv ex \<Longrightarrow> kb_inv (solutions_kb st) \<Longrightarrow> kb_inv (solutions_kb (process_item ex st item))"
  by (auto simp: process_item_def Let_def kb_inv_def split: option.splits)

lemma foldl_process_row_inv: "kb_inv (kb st) \<Longrightarrow> kb_inv (kb (foldl process_row st rows))"
  by (induction rows arbitrary: st) (simp_all add: process_row_inv)

lemma foldl_process_item_inv:
  "kb_inv ex \<Longrightarrow> kb_inv (solutions_kb st) \<Longrightarrow>
     kb_inv (solutions_kb (foldl (process_item ex) st items))"
  by (induction items arbitrary: st) (simp_all add: process_item_inv)

lemmas py_eval = process_data_def process_row_def process_hf_dataset_def process_item_def
  py_get_def py_or_def py_strip_def py_rstrip_def is_space_def py_lower_def lower_char_def
  char_of_def bit_0 Let_def

section \<open>Records without a title are skipped\<close>

text \<open>
  Where the candidate title fields are each absent or text that is empty after trimming,
  the record adds no entry: the loop body returns the state as it was, and the knowledge
  base of the whole pass is the one obtained without that record. This holds for the
  tabular pipeline (fields \<^verbatim>\<open>title\<close>, \<^verbatim>\<open>question title\<close>) and for the solutions
  pipeline (field \<^verbatim>\<open>problem_title\<close>).
\<close>

theorem untitled_record_skipped:
  "(blank_field (row ''title'') \<and> blank_field (row ''question title'') \<longrightarrow>
      process_row st row = st \<and> process_data (xs @ row # ys) = process_data (xs @ ys)) \<and>
   (blank_field (item ''problem_title'') \<longrightarrow>
      process_item ex st' item = st' \<and>
      process_hf_dataset ex (hs @ item # js) = process_hf_dataset ex (hs @ js))"
  by (simp add: process_row_blank process_item_blank process_data_def process_hf_dataset_def)

theorem untitled_record_skipped_witness:
  "blank_field ([''title'' \<mapsto> PStr ''  '', ''tags'' \<mapsto> PStr ''Array''] ''title'') \<and>
   blank_field ([''title'' \<mapsto> PStr ''  '', ''tags'' \<mapsto> PStr ''Array''] ''question title'') \<and>
   process_data [[''title'' \<mapsto> PStr ''A''], [''title'' \<mapsto> PStr ''  '', ''tags'' \<mapsto> PStr ''Array'']]
     = process_data [[''title'' \<mapsto> PStr ''A'']] \<and>
   blank_field ([''problem_title'' \<mapsto> PStr [], ''number'' \<mapsto> PInt 7] ''problem_title'') \<and>
   process_hf_dataset Map.empty [[''problem_title'' \<mapsto> PStr [], ''number'' \<mapsto> PInt 7]]
     = process_hf_dataset Map.empty []"
proof -
  have a: "blank_field ([''title'' \<mapsto> PStr ''  '', ''tags'' \<mapsto> PStr ''Array''] ''title'')"
    by (simp add: blank_field_def py_strip_def is_space_def)
  have b: "blank_field ([''title'' \<mapsto> PStr ''  '', ''tags'' \<mapsto> PStr ''Array''] ''question title'')"
    by (simp add: blank_field_def)
  have c: "blank_field ([''problem_title'' \<mapsto> PStr [], ''number'' \<mapsto> PInt 7] ''problem_title'')"
    by (simp add: blank_field_def)
  show ?thesis
    using a b c
      untitled_record_skipped [where row = "[''title'' \<mapsto> PStr ''  '', ''tags'' \<mapsto> PStr ''Array'']"
        and xs = "[[''title'' \<mapsto> PStr ''A'']]" and ys = "[]"
        and item = "[''problem_title'' \<mapsto> PStr [], ''number'' \<mapsto> PInt 7]"
        and ex = Map.empty and hs = "[]" and js = "[]"]
    by simp
qed

text \<open>
  Claim C6 says that a record whose candidate title fields are all empty is skipped by
  either pipeline. The code does not skip a record whose title field is a missing value:
  the empty title cell of a CSV row is \<^verbatim>\<open>nan\<close>, which is truthy, so the \<^verbatim>\<open>or\<close> keeps it,
  \<^verbatim>\<open>str\<close> makes it the text \<^verbatim>\<open>nan\<close>, the test \<^verbatim>\<open>if not title\<close> lets it pass and the row is
  stored under the key \<^verbatim>\<open>nan\<close>. In the solutions pipeline a \<^verbatim>\<open>problem_title\<close> that is
  \<^verbatim>\<open>None\<close> is stored under the key \<^verbatim>\<open>none\<close> in the same way.
\<close>

theorem missing_title_is_stored:
  "process_data [[''title'' \<mapsto> PNaN, ''difficulty'' \<mapsto> PStr ''Easy'']] ''nan'' \<noteq> None \<and>
   the (process_data [[''title'' \<mapsto> PNaN, ''difficulty'' \<mapsto> PStr ''Easy'']] ''nan'') ''title''
     = Some (JStr ''nan'') \<and>
   process_hf_dataset Map.empty [[''problem_title'' \<mapsto> PNone]] ''none'' \<noteq> None \<and>
   the (process_hf_dataset Map.empty [[''problem_title'' \<mapsto> PNone]] ''none'') ''title''
     = Some (JStr ''None'')"
  by (simp add: py_eval)

section \<open>The key of an entry is its lowercase title\<close>

text \<open>
  Claim C2. Every knowledge base either pipeline produces satisfies the invariant that an
  entry found under key \<open>k\<close> has a title with \<open>title.lower() = k\<close>: the tabular pipeline
  on any rows, the solutions pipeline on any items when the existing knowledge base it
  merges with satisfies the invariant (the empty one does). Each store of one record
  preserves the invariant, the merge with an existing entry included.
\<close>

theorem key_is_lowercase_title:
  "kb_inv (process_data rows) \<and>
   kb_inv (process_hf_dataset Map.empty items) \<and>
   (kb_inv ex \<longrightarrow> kb_inv (process_hf_dataset ex items)) \<and>
   (kb_inv (kb st) \<longrightarrow> kb_inv (kb (process_row st row))) \<and>
   (kb_inv ex \<and> kb_inv (solutions_kb st') \<longrightarrow>
      kb_inv (solutions_kb (process_item ex st' item)))"
  by (simp add: process_data_def process_hf_dataset_def foldl_process_row_inv
      foldl_process_item_inv process_row_inv process_item_inv kb_inv_def [of Map.empty])

theorem key_is_lowercase_title_witness:
  "kb_inv [''two sum'' \<mapsto> [''title'' \<mapsto> JStr ''Two Sum'', ''tags'' \<mapsto> JList [JStr ''array'']]] \<and>
   kb_inv (process_hf_dataset
     [''two sum'' \<mapsto> [''title'' \<mapsto> JStr ''Two Sum'', ''tags'' \<mapsto> JList [JStr ''array'']]]
     [[''problem_title'' \<mapsto> PStr ''TWO SUM'', ''python_solutions'' \<mapsto> PStr ''pass''],
      [''problem_title'' \<mapsto> PStr ''Add Two'']])"
proof -
  have a: "kb_inv [''two sum'' \<mapsto> [''title'' \<mapsto> JStr ''Two Sum'', ''tags'' \<mapsto> JList [JStr ''array'']]]"
    by (simp add: kb_inv_def py_lower_def lower_char_def char_of_def bit_0)
  show ?thesis
    using a key_is_lowercase_title
      [where ex = "[''two sum'' \<mapsto> [''title'' \<mapsto> JStr ''Two Sum'', ''tags'' \<mapsto> JList [JStr ''array'']]]"
         and items = "[[''problem_title'' \<mapsto> PStr ''TWO SUM'', ''python_solutions'' \<mapsto> PStr ''pass''],
            [''problem_title'' \<mapsto> PStr ''Add Two'']]"]
    by simp
qed

section \<open>Later records overwrite earlier ones\<close>

text \<open>
  Claim C9. Within one pass, when a record is filed under key \<open>k\<close> and no later record
  of the sequence is filed under \<open>k\<close>, the final knowledge base maps \<open>k\<close> to the entry
  computed from that record, whatever earlier records were filed under \<open>k\<close>: the last
  write wins and the earlier entries for \<open>k\<close> are gone. Both pipelines.
\<close>

theorem last_write_wins:
  "(row_stores r k e \<and> (\<forall>r' \<in> set ys. \<forall>e'. \<not> row_stores r' k e')
      \<longrightarrow> process_data (xs @ r # ys) k = Some e) \<and>
   (item_stores ex i k' f \<and> (\<forall>i' \<in> set js. \<forall>f'. \<not> item_stores ex i' k' f')
      \<longrightarrow> process_hf_dataset ex (hs @ i # js) k' = Some f)"
proof (intro conjI impI)
  assume a: "row_stores r k e \<and> (\<forall>r' \<in> set ys. \<forall>e'. \<not> row_stores r' k e')"
  let ?st = "foldl process_row \<lparr>kb = Map.empty, count = 0\<rparr> xs"
  have "process_data (xs @ r # ys) k = kb (process_row ?st r) k"
    using a by (simp add: process_data_def foldl_process_row_other)
  also have "\<dots> = Some e"
    using a by (simp add: kb_process_row_at [of ?st] row_stores_def)
  finally show "process_data (xs @ r # ys) k = Some e" .
next
  assume a: "item_stores ex i k' f \<and> (\<forall>i' \<in> set js. \<forall>f'. \<not> item_stores ex i' k' f')"
  let ?st = "foldl (process_item ex) \<lparr>solutions_kb = Map.empty, method_signature_count = 0\<rparr> hs"
  have "process_hf_dataset ex (hs @ i # js) k' = solutions_kb (process_item ex ?st i) k'"
    using a by (simp add: process_hf_dataset_def foldl_process_item_other)
  also have "\<dots> = Some f"
    using a by (simp add: kb_process_item_at [of ex ?st] item_stores_def)
  finally show "process_hf_dataset ex (hs @ i # js) k' = Some f" .
qed

theorem last_write_wins_witness:
  "(\<exists>e. process_data
      [[''title'' \<mapsto> PStr ''Two Sum'', ''difficulty'' \<mapsto> PStr ''Easy''],
       [''title'' \<mapsto> PStr ''two sum'', ''difficulty'' \<mapsto> PStr ''Hard''],
       [''title'' \<mapsto> PStr ''Add Two'']] ''two sum'' = Some e \<and>
      e ''title'' = Some (JStr ''two sum'') \<and> e ''difficulty'' = Some (JStr ''Hard'')) \<and>
   (\<exists>e. process_hf_dataset Map.empty
      [[''problem_title'' \<mapsto> PStr ''Two Sum'', ''difficulty'' \<mapsto> PStr ''Easy''],
       [''problem_title'' \<mapsto> PStr ''two sum'', ''difficulty'' \<mapsto> PStr ''Hard''],
       [''problem_title'' \<mapsto> PStr ''Add Two'']] ''two sum'' = Some e \<and>
      e ''title'' = Some (JStr ''two sum'') \<and> e ''difficulty'' = Some (JStr ''Hard''))"
proof -
  let ?r1 = "[''title'' \<mapsto> PStr ''Two Sum'', ''difficulty'' \<mapsto> PStr ''Easy'']"
  let ?r2 = "[''title'' \<mapsto> PStr ''two sum'', ''difficulty'' \<mapsto> PStr ''Hard'']"
  let ?r3 = "[''title'' \<mapsto> PStr ''Add Two'']"
  let ?i1 = "[''problem_title'' \<mapsto> PStr ''Two Sum'', ''difficulty'' \<mapsto> PStr ''Easy'']"
  let ?i2 = "[''problem_title'' \<mapsto> PStr ''two sum'', ''difficulty'' \<mapsto> PStr ''Hard'']"
  let ?i3 = "[''problem_title'' \<mapsto> PStr ''Add Two'']"
  let ?e = "the (kb (process_row \<lparr>kb = Map.empty, count = 0\<rparr> ?r2) ''two sum'')"
  let ?f = "the (solutions_kb (process_item Map.empty
               \<lparr>solutions_kb = Map.empty, method_signature_count = 0\<rparr> ?i2) ''two sum'')"
  have a: "row_stores ?r2 ''two sum'' ?e"
    by (simp add: row_stores_def py_eval)
  have b: "\<forall>r' \<in> set [?r3]. \<forall>e'. \<not> row_stores r' ''two sum'' e'"
    by (simp add: row_stores_def py_eval)
  have c: "item_stores Map.empty ?i2 ''two sum'' ?f"
    by (simp add: item_stores_def py_eval)
  have d: "\<forall>i' \<in> set [?i3]. \<forall>e'. \<not> item_stores Map.empty i' ''two sum'' e'"
    by (simp add: item_stores_def py_eval)
  note lww = last_write_wins [where r = ?r2 and k = "''two sum''" and e = ?e and ys = "[?r3]"
        and xs = "[?r1]" and ex = Map.empty and i = ?i2 and k' = "''two sum''" and f = ?f and js = "[?i3]" and hs = "[?i1]"]
  have "process_data ([?r1] @ ?r2 # [?r3]) ''two sum'' = Some ?e"
    by (rule mp [OF conjunct1 [OF lww] conjI [OF a b]])
  moreover have "process_hf_dataset Map.empty ([?i1] @ ?i2 # [?i3]) ''two sum'' = Some ?f"
    by (rule mp [OF conjunct2 [OF lww] conjI [OF c d]])
  moreover have "?e ''title'' = Some (JStr ''two sum'') \<and> ?e ''difficulty'' = Some (JStr ''Hard'')"
    by (simp add: py_eval)
  moreover have "?f ''title'' = Some (JStr ''two sum'') \<and> ?f ''difficulty'' = Some (JStr ''Hard'')"
    by (simp add: py_eval)
  ultimately show ?thesis by simp
qed

lemma py_or_text:
  "text_field a \<Longrightarrow> text_field b \<Longrightarrow>
     py_str (py_or (case a of None \<Rightarrow> PStr [] | Some v \<Rightarrow> v)
                   (case b of None \<Rightarrow> PStr [] | Some v \<Rightarrow> v))
       = first_non_empty (field_text a) (field_text b)"
  by (auto simp: text_field_def field_text_def first_non_empty_def py_or_def
      split: option.splits pyval.splits)

lemma split_tags_code:
  "map py_strip (filter (\<lambda>t. py_strip t \<noteq> []) ps) = filter (\<lambda>t. t \<noteq> []) (map py_strip ps)"
  by (induction ps) simp_all

lemma row_stores_tags:
  "row_stores row k e \<Longrightarrow>
     e ''tags'' = Some (JList (map JStr (map py_strip (filter (\<lambda>t. py_strip t \<noteq> [])
       (py_split CHR '','' (py_str (py_or (py_get row ''tags'' (PStr []))
                                         (py_get row ''topic tags'' (PStr [])))))))))"
  by (auto simp: row_stores_def process_row_def Let_def split: if_splits)

lemma dropWhile_rev_fix:
  "xs = [] \<or> \<not> P (hd xs) \<Longrightarrow>
     dropWhile P (rev (dropWhile P (rev xs))) = rev (dropWhile P (rev xs))"
  by (cases xs) (auto simp: dropWhile_append)

lemma dropWhile_head: "dropWhile P xs = [] \<or> \<not> P (hd (dropWhile P xs))"
  using hd_dropWhile [of P xs] by blast

lemma py_strip_idem: "py_strip (py_strip s) = py_strip s"
proof -
  have "dropWhile is_space (py_strip s) = py_strip s"
    unfolding py_strip_def by (rule dropWhile_rev_fix) (rule dropWhile_head)
  then have "py_strip (py_strip s) = rev (dropWhile is_space (rev (py_strip s)))"
    by (simp add: py_strip_def [of "py_strip s"])
  also have "\<dots> = py_strip s"
    by (simp add: py_strip_def)
  finally show ?thesis .
qed

lemma set_py_strip: "set (py_strip s) \<subseteq> set s"
  by (auto simp: py_strip_def dest!: set_dropWhileD)

lemma py_split_no_sep: "p \<in> set (py_split d s) \<Longrightarrow> d \<notin> set p"
  by (induction s arbitrary: p) (auto split: if_splits list.splits)


section \<open>Tags\<close>

text \<open>
  Where the candidate fields \<^verbatim>\<open>tags\<close> and \<^verbatim>\<open>topic tags\<close> are each text or absent, the
  tabular pipeline stores as tags the first non-empty of them, split on commas, each
  piece trimmed, the pieces empty after trimming dropped. A tag is therefore never
  empty, has no comma and no surrounding whitespace, and the list may be empty. The field
  \<^verbatim>\<open>"Array, Hash Table ,  "\<close> yields \<^verbatim>\<open>["Array", "Hash Table"]\<close>.
\<close>

theorem tags_split_trimmed:
  "(row_stores row k e \<and> text_field (row ''tags'') \<and> text_field (row ''topic tags'') \<longrightarrow>
      e ''tags'' = Some (JList (map JStr (split_tags
        (first_non_empty (field_text (row ''tags'')) (field_text (row ''topic tags''))))))) \<and>
   (\<forall>t \<in> set (split_tags s). t \<noteq> [] \<and> CHR '','' \<notin> set t \<and> py_strip t = t) \<and>
   split_tags [] = [] \<and>
   split_tags ''Array, Hash Table ,  '' = [''Array'', ''Hash Table'']"
proof (intro conjI impI ballI)
  assume a: "row_stores row k e \<and> text_field (row ''tags'') \<and> text_field (row ''topic tags'')"
  then show "e ''tags'' = Some (JList (map JStr (split_tags
        (first_non_empty (field_text (row ''tags'')) (field_text (row ''topic tags''))))))"
    using row_stores_tags [of row k e] py_or_text [of "row ''tags''" "row ''topic tags''"]
    by (simp add: split_tags_def split_tags_code py_get_def)
next
  fix t assume "t \<in> set (split_tags s)"
  then obtain p where p: "p \<in> set (py_split CHR '','' s)" and t: "t = py_strip p" and n: "t \<noteq> []"
    by (auto simp: split_tags_def)
  show "t \<noteq> []" by (rule n)
  show "CHR '','' \<notin> set t"
    using py_split_no_sep [OF p] set_py_strip [of p] t by blast
  show "py_strip t = t"
    by (simp add: t py_strip_idem)
next
  show "split_tags [] = []"
    by (simp add: split_tags_def)
next
  show "split_tags ''Array, Hash Table ,  '' = [''Array'', ''Hash Table'']"
    by (simp add: split_tags_def py_strip_def is_space_def)
qed

theorem tags_split_trimmed_witness:
  "\<exists>e. process_data [[''title'' \<mapsto> PStr ''Two Sum'', ''tags'' \<mapsto> PStr [],
                          ''topic tags'' \<mapsto> PStr ''Array, Hash Table ,  '']] ''two sum'' = Some e \<and>
        e ''tags'' = Some (JList [JStr ''Array'', JStr ''Hash Table''])"
proof -
  let ?row = "[''title'' \<mapsto> PStr ''Two Sum'', ''tags'' \<mapsto> PStr [],
               ''topic tags'' \<mapsto> PStr ''Array, Hash Table ,  '']"
  let ?e = "the (kb (process_row \<lparr>kb = Map.empty, count = 0\<rparr> ?row) ''two sum'')"
  note inst = tags_split_trimmed [where row = ?row and k = "''two sum''" and e = ?e and s = "''a, ,b''"]
  have a: "row_stores ?row ''two sum'' ?e"
    by (simp add: row_stores_def py_eval)
  have b: "text_field (?row ''tags'')" "text_field (?row ''topic tags'')"
    by (simp_all add: text_field_def)
  have h1: "?e ''tags'' = Some (JList (map JStr (split_tags
        (first_non_empty (field_text (?row ''tags'')) (field_text (?row ''topic tags''))))))"
    using inst a b by blast
  have h2: "first_non_empty (field_text (?row ''tags'')) (field_text (?row ''topic tags''))
               = ''Array, Hash Table ,  ''"
    by (simp add: first_non_empty_def field_text_def)
  have h3: "split_tags ''Array, Hash Table ,  '' = [''Array'', ''Hash Table'']"
    using inst by blast
  have "?e ''tags'' = Some (JList [JStr ''Array'', JStr ''Hash Table''])"
    by (simp only: h1 h2 h3 list.map)
  moreover have "process_data [?row] ''two sum'' = Some ?e"
    by (simp add: py_eval)
  ultimately show ?thesis by blast
qed

text \<open>
  Claim C7 says that for every raw record the tags come from the first non-empty
  candidate tag field. The code does not do so when the \<^verbatim>\<open>tags\<close> cell is a missing
  value: \<^verbatim>\<open>nan\<close> is truthy, so the \<^verbatim>\<open>or\<close> keeps it and never reads \<^verbatim>\<open>topic tags\<close>, and
  \<^verbatim>\<open>str\<close> makes it the text \<^verbatim>\<open>nan\<close>, which is stored as the only tag. A row with an
  empty \<^verbatim>\<open>tags\<close> cell and \<^verbatim>\<open>topic tags\<close> = \<^verbatim>\<open>Array\<close> gets the tags \<^verbatim>\<open>["nan"]\<close>, and a row
  with both cells empty gets \<^verbatim>\<open>["nan"]\<close> too, not the empty list.
\<close>

theorem missing_tags_cell_is_a_tag:
  "process_data [[''title'' \<mapsto> PStr ''Two Sum'', ''tags'' \<mapsto> PNaN,
                  ''topic tags'' \<mapsto> PStr ''Array'']] ''two sum'' \<noteq> None \<and>
   the (process_data [[''title'' \<mapsto> PStr ''Two Sum'', ''tags'' \<mapsto> PNaN,
                       ''topic tags'' \<mapsto> PStr ''Array'']] ''two sum'') ''tags''
     = Some (JList [JStr ''nan'']) \<and>
   the (process_data [[''title'' \<mapsto> PStr ''Two Sum'', ''tags'' \<mapsto> PNaN,
                       ''topic tags'' \<mapsto> PNaN]] ''two sum'') ''tags''
     = Some (JList [JStr ''nan''])"
  by (simp add: py_eval)

section \<open>What one record of the solutions pipeline stores\<close>

lemma item_stores_cases:
  assumes "item_stores ex item k e"
  obtains title where
    "title = py_strip (py_str (py_get item ''problem_title'' (PStr [])))" "title \<noteq> []"
    "k = py_lower title"
    "e = (let entry = (case ex k of
                  Some e0 \<Rightarrow> e0
                | None \<Rightarrow> [''id'' \<mapsto> JStr (py_str (py_get item ''number'' (PStr []))),
                           ''title'' \<mapsto> JStr title,
                           ''difficulty'' \<mapsto> JStr (py_str (py_get item ''difficulty'' (PStr ''Medium''))),
                           ''tags'' \<mapsto> JList [],
                           ''description'' \<mapsto> JStr (py_str (py_get item ''post_title'' (PStr [])))]);
              code = py_str (py_get item ''python_solutions'' (PStr []))
          in if code = [] then entry
             else (case extract_method_signature code of
                     None \<Rightarrow> entry(''solution_code'' \<mapsto> JStr code)
                   | Some sg \<Rightarrow> entry(''solution_code'' \<mapsto> JStr code,
                                       ''method_name'' \<mapsto> JStr (method_name sg),
                                       ''method_signature'' \<mapsto> JStr (full_signature sg))))"
  using assms
  by (auto simp: item_stores_def process_item_def Let_def split: if_splits option.splits)


section \<open>Entries the solutions pipeline creates\<close>

text \<open>
  Claim C10. When the solutions pipeline files a record under a key that the existing
  knowledge base does not have, the entry it creates has the empty list as tags and, as
  description, \<^verbatim>\<open>str\<close> of the record's \<^verbatim>\<open>post_title\<close> field (the empty text when the
  field is absent).
\<close>

theorem fresh_entry_tags_description:
  "item_stores ex item k e \<and> ex k = None \<longrightarrow>
     e ''tags'' = Some (JList []) \<and>
     e ''description'' = Some (JStr (py_str (py_get item ''post_title'' (PStr []))))"
proof
  assume a: "item_stores ex item k e \<and> ex k = None"
  then have "item_stores ex item k e" and n: "ex k = None" by simp_all
  then show "e ''tags'' = Some (JList []) \<and>
     e ''description'' = Some (JStr (py_str (py_get item ''post_title'' (PStr []))))"
    by (elim item_stores_cases) (simp add: Let_def split: option.splits)
qed

theorem fresh_entry_tags_description_witness:
  "\<exists>e. process_hf_dataset [''two sum'' \<mapsto> [''title'' \<mapsto> JStr ''Two Sum'']]
          [[''problem_title'' \<mapsto> PStr ''Add Two'', ''post_title'' \<mapsto> PStr ''Easy python'',
            ''python_solutions'' \<mapsto> PStr ''pass'']] ''add two'' = Some e \<and>
       e ''tags'' = Some (JList []) \<and> e ''description'' = Some (JStr ''Easy python'')"
proof -
  let ?ex = "[''two sum'' \<mapsto> [''title'' \<mapsto> JStr ''Two Sum'']]"
  let ?item = "[''problem_title'' \<mapsto> PStr ''Add Two'', ''post_title'' \<mapsto> PStr ''Easy python'',
            ''python_solutions'' \<mapsto> PStr ''pass'']"
  let ?e = "the (solutions_kb (process_item ?ex
               \<lparr>solutions_kb = Map.empty, method_signature_count = 0\<rparr> ?item) ''add two'')"
  have x: "extract_method_signature ''pass'' = None"
    by code_simp
  have a: "item_stores ?ex ?item ''add two'' ?e"
    by (simp add: item_stores_def py_eval x)
  have b: "?ex ''add two'' = None"
    by simp
  have "?e ''tags'' = Some (JList []) \<and>
     ?e ''description'' = Some (JStr (py_str (py_get ?item ''post_title'' (PStr []))))"
    using fresh_entry_tags_description [where ex = ?ex and item = ?item and k = "''add two''" and e = ?e]
      a b by blast
  moreover have "py_str (py_get ?item ''post_title'' (PStr [])) = ''Easy python''"
    by (simp add: py_get_def)
  moreover have "process_hf_dataset ?ex [?item] ''add two'' = Some ?e"
    by (simp add: py_eval x)
  ultimately show ?thesis by simp
qed

section \<open>Difficulty\<close>




section \<open>Where the solution text is kept\<close>




section \<open>Merging with an existing entry\<close>

text \<open>
  Claim C1. When the key of a record is in the existing knowledge base, the stored entry
  is the existing entry with only \<^verbatim>\<open>solution_code\<close>, \<^verbatim>\<open>method_name\<close> and
  \<^verbatim>\<open>method_signature\<close> overlaid: every other field is as in the existing entry. With
  a non-empty solution text \<^verbatim>\<open>solution_code\<close> is that text, and the two method fields
  are set when a signature is found and are as before when none is; with an empty text
  the entry is the existing one. The existing entry for Two Sum with its tags and
  description, merged with the solution text \<^verbatim>\<open>def twoSum(self, nums, target):\<close>, keeps
  tags and description and gains the three fields.
\<close>

theorem merge_overlays_existing_entry:
  "item_stores ex item k e \<and> ex k = Some e0 \<longrightarrow>
     (\<forall>f. f \<notin> {''solution_code'', ''method_name'', ''method_signature''} \<longrightarrow> e f = e0 f) \<and>
     (py_str (py_get item ''python_solutions'' (PStr [])) = [] \<longrightarrow> e = e0) \<and>
     (py_str (py_get item ''python_solutions'' (PStr [])) \<noteq> [] \<longrightarrow>
        e ''solution_code'' = Some (JStr (py_str (py_get item ''python_solutions'' (PStr [])))) \<and>
        (case extract_method_signature (py_str (py_get item ''python_solutions'' (PStr []))) of
           Some sg \<Rightarrow> e ''method_name'' = Some (JStr (method_name sg)) \<and>
                      e ''method_signature'' = Some (JStr (full_signature sg))
         | None \<Rightarrow> e ''method_name'' = e0 ''method_name'' \<and>
                   e ''method_signature'' = e0 ''method_signature''))"
proof
  assume "item_stores ex item k e \<and> ex k = Some e0"
  then have a: "item_stores ex item k e" and b: "ex k = Some e0" by simp_all
  from a b show
    "(\<forall>f. f \<notin> {''solution_code'', ''method_name'', ''method_signature''} \<longrightarrow> e f = e0 f) \<and>
     (py_str (py_get item ''python_solutions'' (PStr [])) = [] \<longrightarrow> e = e0) \<and>
     (py_str (py_get item ''python_solutions'' (PStr [])) \<noteq> [] \<longrightarrow>
        e ''solution_code'' = Some (JStr (py_str (py_get item ''python_solutions'' (PStr [])))) \<and>
        (case extract_method_signature (py_str (py_get item ''python_solutions'' (PStr []))) of
           Some sg \<Rightarrow> e ''method_name'' = Some (JStr (method_name sg)) \<and>
                      e ''method_signature'' = Some (JStr (full_signature sg))
         | None \<Rightarrow> e ''method_name'' = e0 ''method_name'' \<and>
                   e ''method_signature'' = e0 ''method_signature''))"
    by (elim item_stores_cases) (simp add: Let_def split: option.splits)
qed

theorem merge_overlays_existing_entry_witness:
  "\<exists>e. process_hf_dataset
          [''two sum'' \<mapsto> [''title'' \<mapsto> JStr ''Two Sum'',
                            ''tags'' \<mapsto> JList [JStr ''array'', JStr ''hash-table''],
                            ''description'' \<mapsto> JStr ''...'']]
          [[''problem_title'' \<mapsto> PStr ''Two Sum'',
            ''python_solutions'' \<mapsto> PStr ''def twoSum(self, nums, target):'']] ''two sum'' = Some e \<and>
       e ''title'' = Some (JStr ''Two Sum'') \<and>
       e ''tags'' = Some (JList [JStr ''array'', JStr ''hash-table'']) \<and>
       e ''description'' = Some (JStr ''...'') \<and>
       e ''solution_code'' = Some (JStr ''def twoSum(self, nums, target):'') \<and>
       e ''method_name'' = Some (JStr ''twoSum'') \<and>
       e ''method_signature'' = Some (JStr ''def twoSum(self, nums, target)'')"
proof -
  let ?base = "[''title'' \<mapsto> JStr ''Two Sum'',
              ''tags'' \<mapsto> JList [JStr ''array'', JStr ''hash-table''],
              ''description'' \<mapsto> JStr ''...'']"
  let ?ex = "[''two sum'' \<mapsto> ?base]"
  let ?item = "[''problem_title'' \<mapsto> PStr ''Two Sum'',
                ''python_solutions'' \<mapsto> PStr ''def twoSum(self, nums, target):'']"
  let ?e = "the (solutions_kb (process_item ?ex
               \<lparr>solutions_kb = Map.empty, method_signature_count = 0\<rparr> ?item) ''two sum'')"
  have x: "extract_method_signature ''def twoSum(self, nums, target):''
             = Some \<lparr>method_name = ''twoSum'', full_signature = ''def twoSum(self, nums, target)''\<rparr>"
    by code_simp
  have c: "py_str (py_get ?item ''python_solutions'' (PStr [])) = ''def twoSum(self, nums, target):''"
    by (simp add: py_get_def)
  have a: "item_stores ?ex ?item ''two sum'' ?e \<and> ?ex ''two sum'' = Some ?base"
    by (simp add: item_stores_def py_eval x)
  note inst = mp [OF merge_overlays_existing_entry
      [where ex = ?ex and item = ?item and k = "''two sum''" and e = ?e and ?e0.0 = ?base] a]
  have frame: "\<And>f. f \<notin> {''solution_code'', ''method_name'', ''method_signature''} \<Longrightarrow> ?e f = ?base f"
    using inst by blast
  have t: "?e ''title'' = Some (JStr ''Two Sum'')"
    using frame [of "''title''"] by simp
  have g: "?e ''tags'' = Some (JList [JStr ''array'', JStr ''hash-table''])"
    using frame [of "''tags''"] by simp
  have d: "?e ''description'' = Some (JStr ''...'')"
    using frame [of "''description''"] by simp
  have ne: "py_str (py_get ?item ''python_solutions'' (PStr [])) \<noteq> []"
    by (simp add: py_get_def)
  have over: "?e ''solution_code'' = Some (JStr (py_str (py_get ?item ''python_solutions'' (PStr [])))) \<and>
        (case extract_method_signature (py_str (py_get ?item ''python_solutions'' (PStr []))) of
           Some sg \<Rightarrow> ?e ''method_name'' = Some (JStr (method_name sg)) \<and>
                      ?e ''method_signature'' = Some (JStr (full_signature sg))
         | None \<Rightarrow> ?e ''method_name'' = ?base ''method_name'' \<and>
                   ?e ''method_signature'' = ?base ''method_signature'')"
    by (rule mp [OF conjunct2 [OF conjunct2 [OF inst]] ne])
  have s: "?e ''solution_code'' = Some (JStr ''def twoSum(self, nums, target):'') \<and>
           ?e ''method_name'' = Some (JStr ''twoSum'') \<and>
           ?e ''method_signature'' = Some (JStr ''def twoSum(self, nums, target)'')"
    using over unfolding c x by (simp only: option.case sig_info.select_convs)
  have "process_hf_dataset ?ex [?item] ''two sum'' = Some ?e"
    by (simp add: py_eval x)
  with t g d s show ?thesis by simp
qed

section \<open>What the matchers accept\<close>

lemma set_re_class:
  "(m, r) \<in> set (re_class P s) \<longleftrightarrow> (\<exists>c. m = [c] \<and> P c \<and> s = c # r)"
  by (auto simp: re_class_def split: list.splits)

lemma set_re_lit: "(m, r) \<in> set (re_lit w s) \<longleftrightarrow> m = w \<and> s = w @ r"
proof -
  have "take (length w) s = w \<longleftrightarrow> s = w @ drop (length w) s"
    by (metis append_take_drop_id append_eq_conv_conj)
  then show ?thesis
    by (auto simp: re_lit_def)
qed

lemma set_re_star:
  "(m, r) \<in> set (re_star P s) \<longleftrightarrow> s = m @ r \<and> list_all P m"
proof (induction s arbitrary: m)
  case Nil
  show ?case by auto
next
  case (Cons c cs)
  show ?case
  proof (cases m)
    case Nil
    then show ?thesis by (auto simp: Cons.IH)
  next
    case (Cons x m')
    have "(x # m', r) \<in> (\<lambda>(m, r). (c # m, r)) ` set (re_star P cs)
            \<longleftrightarrow> x = c \<and> (m', r) \<in> set (re_star P cs)"
      by force
    with Cons show ?thesis by (auto simp: Cons.IH)
  qed
qed

lemma set_re_seq:
  "(m, r) \<in> set (re_seq a b s) \<longleftrightarrow>
     (\<exists>m1 r1 m2. (m1, r1) \<in> set (a s) \<and> (m2, r) \<in> set (b r1) \<and> m = m1 @ m2)"
  by (force simp: re_seq_def)

lemma set_re_plus:
  "(m, r) \<in> set (re_plus P s) \<longleftrightarrow> s = m @ r \<and> m \<noteq> [] \<and> list_all P m"
proof
  assume "(m, r) \<in> set (re_plus P s)"
  then show "s = m @ r \<and> m \<noteq> [] \<and> list_all P m"
    by (auto simp: re_plus_def set_re_seq set_re_class set_re_star)
next
  assume a: "s = m @ r \<and> m \<noteq> [] \<and> list_all P m"
  then obtain c m' where m: "m = c # m'" by (cases m) auto
  with a have "([c], m' @ r) \<in> set (re_class P s)" and "(m', r) \<in> set (re_star P (m' @ r))"
    by (simp_all add: set_re_class set_re_star)
  then show "(m, r) \<in> set (re_plus P s)"
    unfolding re_plus_def set_re_seq using m by fastforce
qed

lemma set_re_opt: "(m, r) \<in> set (re_opt a s) \<longleftrightarrow> (m, r) \<in> set (a s) \<or> (m = [] \<and> r = s)"
  by (auto simp: re_opt_def)

lemma list_all_neq: "list_all (\<lambda>c. c \<noteq> x) m \<longleftrightarrow> x \<notin> set m"
  by (auto simp: list_all_iff)

lemma is_space_not_colon: "is_space c \<Longrightarrow> c \<noteq> CHR '':''"
  by (auto simp: is_space_def)

lemma set_pat_head:
  "(m, r) \<in> set (pat_head s) \<longleftrightarrow>
     (\<exists>ws. m = ''def'' @ ws \<and> ws \<noteq> [] \<and> list_all is_space ws \<and> s = m @ r)"
  unfolding pat_head_def set_re_seq set_re_lit set_re_plus by auto

lemma set_pat_group1:
  "(m, r) \<in> set (pat_group1 s) \<longleftrightarrow> is_identifier m \<and> s = m @ r"
  unfolding pat_group1_def set_re_seq set_re_class set_re_star is_identifier_def
  by (cases m) auto

lemma set_pat_arrow:
  "(m, r) \<in> set (pat_arrow s) \<longleftrightarrow>
     (\<exists>ws rt. m = ws @ ''->'' @ rt \<and> list_all is_space ws \<and> rt \<noteq> [] \<and>
              CHR '':'' \<notin> set rt \<and> s = m @ r)"
proof
  assume "(m, r) \<in> set (pat_arrow s)"
  then obtain ws ws' rt' where
    m: "m = ws @ ''->'' @ ws' @ rt'" and s: "s = m @ r" and
    w: "list_all is_space ws" "list_all is_space ws'" and
    t: "rt' \<noteq> []" "CHR '':'' \<notin> set rt'"
    unfolding pat_arrow_def set_re_seq set_re_lit set_re_plus set_re_star list_all_neq
    by auto
  have "CHR '':'' \<notin> set (ws' @ rt')"
    using w t is_space_not_colon by (auto simp: list_all_iff)
  with m s w t show "\<exists>ws rt. m = ws @ ''->'' @ rt \<and> list_all is_space ws \<and> rt \<noteq> [] \<and>
              CHR '':'' \<notin> set rt \<and> s = m @ r"
    by (intro exI [of _ ws] exI [of _ "ws' @ rt'"]) simp
next
  assume "\<exists>ws rt. m = ws @ ''->'' @ rt \<and> list_all is_space ws \<and> rt \<noteq> [] \<and>
              CHR '':'' \<notin> set rt \<and> s = m @ r"
  then obtain ws rt where
    m: "m = ws @ ''->'' @ rt" and s: "s = m @ r" and w: "list_all is_space ws" and
    t: "rt \<noteq> []" "CHR '':'' \<notin> set rt"
    by blast
  have 4: "(rt, r) \<in> set (re_seq (re_star is_space) (re_plus (\<lambda>c. c \<noteq> CHR '':'')) (rt @ r))"
    unfolding set_re_seq set_re_star set_re_plus list_all_neq
    using t by (intro exI [of _ "[]"] exI [of _ "rt @ r"] exI [of _ rt]) simp
  have 3: "(''->'' @ rt, r) \<in> set (re_seq (re_lit ''->'')
             (re_seq (re_star is_space) (re_plus (\<lambda>c. c \<noteq> CHR '':''))) (''->'' @ rt @ r))"
    unfolding set_re_seq [of _ _ "re_lit ''->''"] set_re_lit
    using 4 by (intro exI [of _ "''->''"] exI [of _ "rt @ r"] exI [of _ rt]) simp
  show "(m, r) \<in> set (pat_arrow s)"
    unfolding pat_arrow_def set_re_seq [of _ _ "re_star is_space"] set_re_star
    using 3 w m s by (intro exI [of _ ws] exI [of _ "''->'' @ rt @ r"] exI [of _ "''->'' @ rt"]) simp
qed

lemma set_pat_tail_end:
  "(m, r) \<in> set (re_seq (re_opt pat_arrow) (re_lit '':'') s) \<longleftrightarrow>
     (\<exists>ret. m = ret @ '':'' \<and> return_annotation ret \<and> s = m @ r)"
proof
  assume "(m, r) \<in> set (re_seq (re_opt pat_arrow) (re_lit '':'') s)"
  then obtain m1 r1 where a: "(m1, r1) \<in> set (pat_arrow s) \<or> (m1 = [] \<and> r1 = s)"
      and b: "r1 = '':'' @ r" "m = m1 @ '':''"
    unfolding set_re_seq set_re_opt set_re_lit by blast
  from a have "return_annotation m1 \<and> s = m1 @ r1"
    unfolding set_pat_arrow return_annotation_def by auto
  with b show "\<exists>ret. m = ret @ '':'' \<and> return_annotation ret \<and> s = m @ r"
    by (intro exI [of _ m1]) simp
next
  assume "\<exists>ret. m = ret @ '':'' \<and> return_annotation ret \<and> s = m @ r"
  then obtain ret where m: "m = ret @ '':''" and t: "return_annotation ret" and s: "s = m @ r"
    by blast
  from t have "(ret, '':'' @ r) \<in> set (pat_arrow s) \<or> (ret = [] \<and> '':'' @ r = s)"
    unfolding set_pat_arrow return_annotation_def using m s by auto
  then show "(m, r) \<in> set (re_seq (re_opt pat_arrow) (re_lit '':'') s)"
    unfolding set_re_seq set_re_opt set_re_lit
    using m by (intro exI [of _ ret] exI [of _ "'':'' @ r"] exI [of _ "'':''"]) simp
qed

lemma set_pat_tail:
  "(m, r) \<in> set (pat_tail s) \<longleftrightarrow>
     (\<exists>ws2 ps ret. m = ws2 @ ''('' @ ps @ '')'' @ ret @ '':'' \<and> list_all is_space ws2 \<and>
        CHR '')'' \<notin> set ps \<and> return_annotation ret \<and> s = m @ r)"
proof
  assume "(m, r) \<in> set (pat_tail s)"
  then obtain ws2 r1 m1 where 1: "s = ws2 @ r1" "list_all is_space ws2" "m = ws2 @ m1"
      and a: "(m1, r) \<in> set (re_seq (re_lit ''('') (re_seq (re_star (\<lambda>c. c \<noteq> CHR '')''))
                (re_seq (re_lit '')'') (re_seq (re_opt pat_arrow) (re_lit '':'')))) r1)"
    unfolding pat_tail_def set_re_seq [of _ _ "re_star is_space"] set_re_star by blast
  from a obtain r2 m2 where 2: "r1 = ''('' @ r2" "m1 = ''('' @ m2"
      and b: "(m2, r) \<in> set (re_seq (re_star (\<lambda>c. c \<noteq> CHR '')''))
                (re_seq (re_lit '')'') (re_seq (re_opt pat_arrow) (re_lit '':''))) r2)"
    unfolding set_re_seq [of _ _ "re_lit ''(''"] set_re_lit by blast
  from b obtain ps r3 m3 where 3: "r2 = ps @ r3" "CHR '')'' \<notin> set ps" "m2 = ps @ m3"
      and c: "(m3, r) \<in> set (re_seq (re_lit '')'') (re_seq (re_opt pat_arrow) (re_lit '':'')) r3)"
    unfolding set_re_seq [of _ _ "re_star (\<lambda>c. c \<noteq> CHR '')'')"] set_re_star list_all_neq by blast
  from c obtain r4 m4 where 4: "r3 = '')'' @ r4" "m3 = '')'' @ m4"
      and d: "(m4, r) \<in> set (re_seq (re_opt pat_arrow) (re_lit '':'') r4)"
    unfolding set_re_seq [of _ _ "re_lit '')''"] set_re_lit by blast
  from d obtain ret where 5: "m4 = ret @ '':''" "return_annotation ret" "r4 = m4 @ r"
    unfolding set_pat_tail_end by blast
  show "\<exists>ws2 ps ret. m = ws2 @ ''('' @ ps @ '')'' @ ret @ '':'' \<and> list_all is_space ws2 \<and>
        CHR '')'' \<notin> set ps \<and> return_annotation ret \<and> s = m @ r"
    using 1 2 3 4 5 by (intro exI [of _ ws2] exI [of _ ps] exI [of _ ret]) simp
next
  assume "\<exists>ws2 ps ret. m = ws2 @ ''('' @ ps @ '')'' @ ret @ '':'' \<and> list_all is_space ws2 \<and>
        CHR '')'' \<notin> set ps \<and> return_annotation ret \<and> s = m @ r"
  then obtain ws2 ps ret where m: "m = ws2 @ ''('' @ ps @ '')'' @ ret @ '':''"
      and w: "list_all is_space ws2" and p: "CHR '')'' \<notin> set ps"
      and t: "return_annotation ret" and s: "s = m @ r"
    by blast
  have d: "(ret @ '':'', r) \<in> set (re_seq (re_opt pat_arrow) (re_lit '':'') (ret @ '':'' @ r))"
    unfolding set_pat_tail_end using t by auto
  have c: "('')'' @ ret @ '':'', r) \<in> set (re_seq (re_lit '')'')
             (re_seq (re_opt pat_arrow) (re_lit '':'')) ('')'' @ ret @ '':'' @ r))"
    unfolding set_re_seq [of _ _ "re_lit '')''"] set_re_lit
    using d by (intro exI [of _ "'')''"] exI [of _ "ret @ '':'' @ r"] exI [of _ "ret @ '':''"]) simp
  have b: "(ps @ '')'' @ ret @ '':'', r) \<in> set (re_seq (re_star (\<lambda>c. c \<noteq> CHR '')''))
             (re_seq (re_lit '')'') (re_seq (re_opt pat_arrow) (re_lit '':'')))
             (ps @ '')'' @ ret @ '':'' @ r))"
    unfolding set_re_seq [of _ _ "re_star (\<lambda>c. c \<noteq> CHR '')'')"] set_re_star list_all_neq
    using c p
    by (intro exI [of _ ps] exI [of _ "'')'' @ ret @ '':'' @ r"] exI [of _ "'')'' @ ret @ '':''"]) simp
  have a: "(''('' @ ps @ '')'' @ ret @ '':'', r) \<in> set (re_seq (re_lit ''('')
             (re_seq (re_star (\<lambda>c. c \<noteq> CHR '')''))
               (re_seq (re_lit '')'') (re_seq (re_opt pat_arrow) (re_lit '':''))))
             (''('' @ ps @ '')'' @ ret @ '':'' @ r))"
    unfolding set_re_seq [of _ _ "re_lit ''(''"] set_re_lit
    using b
    by (intro exI [of _ "''(''"] exI [of _ "ps @ '')'' @ ret @ '':'' @ r"]
          exI [of _ "ps @ '')'' @ ret @ '':''"]) simp
  show "(m, r) \<in> set (pat_tail s)"
    unfolding pat_tail_def set_re_seq [of _ _ "re_star is_space"] set_re_star
    using a w m s
    by (intro exI [of _ ws2] exI [of _ "''('' @ ps @ '')'' @ ret @ '':'' @ r"]
          exI [of _ "''('' @ ps @ '')'' @ ret @ '':''"]) simp
qed

lemma method_patternI:
  assumes h: "(m1, r1) \<in> set (pat_head s)" and g: "(g1, r2) \<in> set (pat_group1 r1)"
    and t: "(m3, r) \<in> set (pat_tail r2)"
  shows "(m1 @ g1 @ m3, g1, r) \<in> set (method_pattern s)"
proof -
  let ?inner = "\<lambda>m1 (g1, r2). map (\<lambda>(m3, r3). (m1 @ g1 @ m3, g1, r3)) (pat_tail r2)"
  let ?outer = "\<lambda>(m1, r1). concat (map (?inner m1) (pat_group1 r1))"
  have 1: "(m1 @ g1 @ m3, g1, r) \<in> set (?inner m1 (g1, r2))"
    unfolding prod.case set_map by (rule image_eqI [OF _ t]) simp
  have 2: "(m1 @ g1 @ m3, g1, r) \<in> set (?outer (m1, r1))"
    unfolding prod.case [of _ m1 r1] set_concat set_map
    by (rule UN_I [OF imageI [OF g]]) (rule 1)
  show ?thesis
    unfolding method_pattern_def set_concat set_map
    by (rule UN_I [OF imageI [OF h]]) (rule 2)
qed

lemma set_method_pattern:
  "(g0, g1, r) \<in> set (method_pattern s) \<longleftrightarrow> decl_shape g1 g0 \<and> s = g0 @ r"
proof
  assume "(g0, g1, r) \<in> set (method_pattern s)"
  then obtain m1 r1 r2 m3 where
    h: "(m1, r1) \<in> set (pat_head s)" and g: "(g1, r2) \<in> set (pat_group1 r1)" and
    t: "(m3, r) \<in> set (pat_tail r2)" and g0: "g0 = m1 @ g1 @ m3"
    by (auto simp: method_pattern_def)
  from h obtain ws1 where 1: "m1 = ''def'' @ ws1" "ws1 \<noteq> []" "list_all is_space ws1" "s = m1 @ r1"
    unfolding set_pat_head by blast
  from g have 2: "is_identifier g1" "r1 = g1 @ r2"
    unfolding set_pat_group1 by simp_all
  from t obtain ws2 ps ret where 3: "m3 = ws2 @ ''('' @ ps @ '')'' @ ret @ '':''"
    "list_all is_space ws2" "CHR '')'' \<notin> set ps" "return_annotation ret" "r2 = m3 @ r"
    unfolding set_pat_tail by blast
  have "decl_shape g1 g0"
    unfolding decl_shape_def using g0 1 2 3
    by (intro exI [of _ ws1] exI [of _ ws2] exI [of _ ps] exI [of _ ret]) simp
  moreover have "s = g0 @ r"
    using g0 1 2 3 by simp
  ultimately show "decl_shape g1 g0 \<and> s = g0 @ r" ..
next
  assume a: "decl_shape g1 g0 \<and> s = g0 @ r"
  then obtain ws1 ws2 ps ret where
    g0: "g0 = ''def'' @ ws1 @ g1 @ ws2 @ ''('' @ ps @ '')'' @ ret @ '':''" and
    1: "ws1 \<noteq> []" "list_all is_space ws1" and 2: "is_identifier g1" and
    3: "list_all is_space ws2" "CHR '')'' \<notin> set ps" "return_annotation ret"
    unfolding decl_shape_def by blast
  let ?m3 = "ws2 @ ''('' @ ps @ '')'' @ ret @ '':''"
  have h: "(''def'' @ ws1, g1 @ ?m3 @ r) \<in> set (pat_head s)"
    unfolding set_pat_head using a g0 1 by simp
  have g: "(g1, ?m3 @ r) \<in> set (pat_group1 (g1 @ ?m3 @ r))"
    unfolding set_pat_group1 using 2 by simp
  have t: "(?m3, r) \<in> set (pat_tail (?m3 @ r))"
    unfolding set_pat_tail using 3 by blast
  have "((''def'' @ ws1) @ g1 @ ?m3, g1, r) \<in> set (method_pattern s)"
    by (rule method_patternI [OF h g t])
  then show "(g0, g1, r) \<in> set (method_pattern s)"
    using g0 by simp
qed

section \<open>The search finds the first declaration\<close>

lemma method_pattern_Cons:
  "method_pattern s = (g0, g1, r) # rest \<Longrightarrow> decl_shape g1 g0 \<and> s = g0 @ r"
  using set_method_pattern [of g0 g1 r s] by simp

lemma method_pattern_Nil:
  "method_pattern s = [] \<Longrightarrow> decl_shape n d \<Longrightarrow> s \<noteq> d @ r"
  using set_method_pattern [of d n r s] by auto

lemma decl_shape_not_Nil: "decl_shape n d \<Longrightarrow> d \<noteq> []"
  by (auto simp: decl_shape_def)

lemma re_search_Some:
  "re_search s = Some (g0, g1) \<Longrightarrow> first_decl s g1 g0"
proof (induction s)
  case Nil
  then show ?case
  proof (cases "method_pattern []")
    case Nil
    with \<open>re_search [] = Some (g0, g1)\<close> show ?thesis
      by (simp add: re_search.simps [of "[]"])
  next
    case (Cons x rest)
    obtain a b r where x: "x = (a, b, r)" by (cases x)
    from Cons x have "decl_shape b a \<and> [] = a @ r"
      using method_pattern_Cons by blast
    then show ?thesis using decl_shape_not_Nil by auto
  qed
next
  case (Cons c cs)
  show ?case
  proof (cases "method_pattern (c # cs)")
    case Nil
    with Cons.prems have "re_search cs = Some (g0, g1)"
      by (simp add: re_search.simps [of "c # cs"])
    then have "first_decl cs g1 g0" by (rule Cons.IH)
    then obtain pre post where
      1: "cs = pre @ g0 @ post" "decl_shape g1 g0" and
      2: "\<And>pre' n' d' post'. cs = pre' @ d' @ post' \<Longrightarrow> decl_shape n' d'
             \<Longrightarrow> length pre \<le> length pre'"
      unfolding first_decl_def by blast
    have "length (c # pre) \<le> length pre'"
      if a: "c # cs = pre' @ d' @ post'" and b: "decl_shape n' d'" for pre' n' d' post'
    proof (cases pre')
      case Nil
      with a b show ?thesis
        using method_pattern_Nil [OF \<open>method_pattern (c # cs) = []\<close> b, of post'] by simp
    next
      case (Cons x t)
      with a have "cs = t @ d' @ post'" by simp
      from 2 [OF this b] Cons show ?thesis by simp
    qed
    moreover have "c # cs = (c # pre) @ g0 @ post"
      using 1 by simp
    ultimately show ?thesis
      unfolding first_decl_def using 1(2) by blast
  next
    case (Cons x rest)
    obtain a b r where x: "x = (a, b, r)" by (cases x)
    with Cons Cons.prems have eq: "a = g0" "b = g1"
      by (simp_all add: re_search.simps [of "c # cs"])
    from Cons x eq have "decl_shape g1 g0 \<and> c # cs = g0 @ r"
      using method_pattern_Cons by blast
    then have "c # cs = [] @ g0 @ r \<and> decl_shape g1 g0" by simp
    then show ?thesis
      unfolding first_decl_def by (intro exI [of _ "[]"] exI [of _ r]) simp
  qed
qed

lemma re_search_None:
  "re_search s = None \<Longrightarrow> decl_shape n d \<Longrightarrow> s \<noteq> pre @ d @ post"
proof (induction s arbitrary: pre)
  case Nil
  then show ?case using decl_shape_not_Nil by auto
next
  case (Cons c cs)
  from Cons.prems(1) have m: "method_pattern (c # cs) = []" and r: "re_search cs = None"
    by (auto simp: re_search.simps [of "c # cs"] split: list.splits)
  show ?case
  proof (cases pre)
    case Nil
    then show ?thesis
      using method_pattern_Nil [OF m Cons.prems(2), of post] by simp
  next
    case (Cons x t)
    then show ?thesis
      using Cons.IH [OF r Cons.prems(2), of t] by simp
  qed
qed



section \<open>At most one declaration starts at a position\<close>









section \<open>The extractor\<close>

lemma has_infixI: "s = pre @ w @ post \<Longrightarrow> has_infix w s"
proof (induction pre arbitrary: s)
  case Nil
  then have "take (length w) s = w" by simp
  then show ?case by (cases s) auto
next
  case (Cons x pre)
  then show ?case by auto
qed

lemma decl_shape_has_def: "decl_shape n d \<Longrightarrow> \<exists>t. d = ''def'' @ t"
  by (auto simp: decl_shape_def)


lemma extract_None:
  assumes "\<forall>pre n d post. decl_shape n d \<longrightarrow> code \<noteq> pre @ d @ post"
  shows "extract_method_signature code = None"
proof (cases "re_search code")
  case None
  then show ?thesis by (simp add: extract_method_signature_def)
next
  case (Some p)
  obtain g0 g1 where "p = (g0, g1)" by (cases p)
  with Some have "first_decl code g1 g0" using re_search_Some by simp
  with assms show ?thesis unfolding first_decl_def by blast
qed

lemma extract_None_no_def:
  assumes "\<not> has_infix ''def'' code"
  shows "extract_method_signature code = None"
proof (rule extract_None, intro allI impI notI)
  fix pre n d post
  assume "decl_shape n d" and c: "code = pre @ d @ post"
  then obtain t where "d = ''def'' @ t" using decl_shape_has_def by blast
  with c have "code = pre @ ''def'' @ (t @ post)" by simp
  from has_infixI [OF this] assms show False by simp
qed



section \<open>No signature is not an error\<close>

text \<open>
  Claim C8. The extractor is a total function with an optional result: on the empty
  text, on a text in which the word \<^verbatim>\<open>def\<close> does not occur, and on any text in which no
  text of the declaration shape occurs, it returns the no-match result. When it does so
  for the solution text of a record with a title, the record is still stored, and the
  stored entry has \<^verbatim>\<open>method_name\<close> and \<^verbatim>\<open>method_signature\<close> as the base entry has them:
  absent for an entry the pipeline creates, unchanged for an existing one.
\<close>

theorem no_match_is_not_an_error:
  "extract_method_signature [] = None \<and>
   (\<not> has_infix ''def'' code \<longrightarrow> extract_method_signature code = None) \<and>
   ((\<forall>pre n d post. decl_shape n d \<longrightarrow> code \<noteq> pre @ d @ post) \<longrightarrow>
      extract_method_signature code = None) \<and>
   (py_strip (py_str (py_get item ''problem_title'' (PStr []))) \<noteq> [] \<and>
    extract_method_signature (py_str (py_get item ''python_solutions'' (PStr []))) = None \<longrightarrow>
      (\<exists>e. solutions_kb (process_item ex st item)
              (py_lower (py_strip (py_str (py_get item ''problem_title'' (PStr []))))) = Some e \<and>
           e ''method_name'' =
             (case ex (py_lower (py_strip (py_str (py_get item ''problem_title'' (PStr [])))))
              of None \<Rightarrow> None | Some e0 \<Rightarrow> e0 ''method_name'') \<and>
           e ''method_signature'' =
             (case ex (py_lower (py_strip (py_str (py_get item ''problem_title'' (PStr [])))))
              of None \<Rightarrow> None | Some e0 \<Rightarrow> e0 ''method_signature'')))"
proof (intro conjI impI)
  show "extract_method_signature [] = None"
    by (simp add: extract_method_signature_def)
next
  assume "\<not> has_infix ''def'' code"
  then show "extract_method_signature code = None"
    by (rule extract_None_no_def)
next
  assume "\<forall>pre n d post. decl_shape n d \<longrightarrow> code \<noteq> pre @ d @ post"
  then show "extract_method_signature code = None"
    by (rule extract_None)
next
  let ?k = "py_lower (py_strip (py_str (py_get item ''problem_title'' (PStr []))))"
  assume a: "py_strip (py_str (py_get item ''problem_title'' (PStr []))) \<noteq> [] \<and>
    extract_method_signature (py_str (py_get item ''python_solutions'' (PStr []))) = None"
  then show "\<exists>e. solutions_kb (process_item ex st item) ?k = Some e \<and>
           e ''method_name'' = (case ex ?k of None \<Rightarrow> None | Some e0 \<Rightarrow> e0 ''method_name'') \<and>
           e ''method_signature'' =
             (case ex ?k of None \<Rightarrow> None | Some e0 \<Rightarrow> e0 ''method_signature'')"
    by (simp add: process_item_def Let_def split: option.splits)
qed

theorem no_match_is_not_an_error_witness:
  "extract_method_signature ''x = 1'' = None \<and>
   extract_method_signature ''def f('' = None \<and>
   (\<exists>e. process_hf_dataset Map.empty
          [[''problem_title'' \<mapsto> PStr ''Two Sum'', ''python_solutions'' \<mapsto> PStr ''x = 1'']]
          ''two sum'' = Some e \<and>
        e ''solution_code'' = Some (JStr ''x = 1'') \<and>
        e ''method_name'' = None \<and> e ''method_signature'' = None)"
proof -
  let ?item = "[''problem_title'' \<mapsto> PStr ''Two Sum'', ''python_solutions'' \<mapsto> PStr ''x = 1'']"
  let ?st = "\<lparr>solutions_kb = Map.empty, method_signature_count = 0\<rparr>"
  note inst1 = no_match_is_not_an_error [where code = "''x = 1''" and item = ?item
      and ex = Map.empty and st = ?st]
  note inst2 = no_match_is_not_an_error [where code = "''def f(''" and item = ?item
      and ex = Map.empty and st = ?st]
  have a: "\<not> has_infix ''def'' ''x = 1''"
    by simp
  have x: "extract_method_signature ''x = 1'' = None"
    using inst1 a by blast
  have "re_search ''def f('' = None"
    by code_simp
  then have b: "\<forall>pre n d post. decl_shape n d \<longrightarrow> ''def f('' \<noteq> pre @ d @ post"
    using re_search_None by blast
  have y: "extract_method_signature ''def f('' = None"
    using inst2 b by blast
  have t: "py_strip (py_str (py_get ?item ''problem_title'' (PStr []))) = ''Two Sum''"
    by (simp add: py_eval)
  have c: "py_str (py_get ?item ''python_solutions'' (PStr [])) = ''x = 1''"
    by (simp add: py_get_def)
  have k: "py_lower ''Two Sum'' = ''two sum''"
    by (simp add: py_eval)
  have h: "py_strip (py_str (py_get ?item ''problem_title'' (PStr []))) \<noteq> [] \<and>
    extract_method_signature (py_str (py_get ?item ''python_solutions'' (PStr []))) = None"
    unfolding t c using x by simp
  from mp [OF conjunct2 [OF conjunct2 [OF conjunct2 [OF inst1]]] h]
  obtain e where e: "solutions_kb (process_item Map.empty ?st ?item) ''two sum'' = Some e"
    "e ''method_name'' = None" "e ''method_signature'' = None"
    unfolding t k by auto
  have p: "process_hf_dataset Map.empty [?item] ''two sum''
             = solutions_kb (process_item Map.empty ?st ?item) ''two sum''"
    by (simp add: process_hf_dataset_def)
  have s: "the (solutions_kb (process_item Map.empty ?st ?item) ''two sum'') ''solution_code''
             = Some (JStr ''x = 1'')"
    by (simp add: py_eval x)
  from e s have "e ''solution_code'' = Some (JStr ''x = 1'')" by simp
  with e p x y show ?thesis by auto
qed

end
